theory Spec2Isabelle
  imports Main "HOL-Library.Multiset"
begin

section \<open>Data model (shared schema)\<close>

text \<open>
  The tables of the relational schema, one record per row type. Primary keys are
  \<^verbatim>\<open>varchar\<close> columns filled by \<^verbatim>\<open>gen_random_uuid()\<close>; an identifier is modelled
  as a natural number and the generator as the counter \<open>next_id\<close> of the store, so
  that every generated key is new. Timestamps (\<^verbatim>\<open>defaultNow()\<close>, \<^verbatim>\<open>new Date()\<close>) are
  natural numbers supplied with each request. A nullable column is an \<open>option\<close>.
\<close>

type_synonym ident = nat
type_synonym timestamp = nat

record user =
  u_id :: ident
  email :: string
  password :: string
  name :: string
  role :: string
  u_createdAt :: timestamp

record category =
  c_id :: ident
  c_name :: string

record issue =
  i_id :: ident
  title :: string
  description :: string
  state :: string
  city :: string
  reporterName :: string
  reporterPhone :: string
  categoryId :: "ident option"
  location :: string
  priority :: string
  status :: string
  mediaUrls :: "string list option"
  userId :: "ident option"
  resolutionNotes :: "string option"
  resolutionImageUrl :: "string option"
  resolvedBy :: "ident option"
  resolvedAt :: "timestamp option"
  createdAt :: timestamp

record upvote =
  up_id :: ident
  up_userId :: "ident option"
  up_issueId :: "ident option"
  up_createdAt :: timestamp

record assignment =
  as_id :: ident
  as_issueId :: "ident option"
  adminId :: "ident option"
  assignedBy :: "ident option"
  assignmentNotes :: "string option"
  as_createdAt :: timestamp

text \<open>
  The database: each table is the list of its rows in storage order (a new row is
  appended, an update rewrites rows in place).
\<close>

record store =
  users :: "user list"
  categories :: "category list"
  issues :: "issue list"
  upvotes :: "upvote list"
  assignments :: "assignment list"
  next_id :: ident

definition init_store :: store where
  "init_store = \<lparr>users = [], categories = [], issues = [], upvotes = [],
                 assignments = [], next_id = 0\<rparr>"

text \<open>Constraint violations raised by the database; the caller sees an exception.\<close>

datatype db_error = NotNullViolation | UniqueViolation | ForeignKeyViolation

text \<open>Foreign-key checks: a null reference is always accepted.\<close>

definition user_exists :: "store \<Rightarrow> ident \<Rightarrow> bool" where
  "user_exists s uid = (\<exists>u \<in> set (users s). u_id u = uid)"

definition category_exists :: "store \<Rightarrow> ident \<Rightarrow> bool" where
  "category_exists s cid = (\<exists>c \<in> set (categories s). c_id c = cid)"

definition issue_exists :: "store \<Rightarrow> ident \<Rightarrow> bool" where
  "issue_exists s iid = (\<exists>i \<in> set (issues s). i_id i = iid)"

definition fk_ok :: "(ident \<Rightarrow> bool) \<Rightarrow> ident option \<Rightarrow> bool" where
  "fk_ok ex r = (case r of None \<Rightarrow> True | Some k \<Rightarrow> ex k)"

section \<open>Validation schemas\<close>

text \<open>
  The values handed to the storage operations (\<^verbatim>\<open>InsertUser\<close>, \<^verbatim>\<open>InsertIssue\<close>,
  \<^verbatim>\<open>InsertAssignment\<close>, \<^verbatim>\<open>ResolveIssue\<close>) and the schemas that produce them. A
  request body is modelled with its fields being strings (identifiers for
  references) or absent (\<open>None\<close>). The register route hands its body to
  \<^verbatim>\<open>createUser\<close> unparsed, so every field of an \<open>insert_user\<close> may be absent; a
  category is inserted by its name.
\<close>

record insert_user =
  iu_email :: "string option"
  iu_password :: "string option"
  iu_name :: "string option"
  iu_role :: "string option"

record insert_issue =
  ii_title :: string
  ii_description :: string
  ii_state :: string
  ii_city :: string
  ii_reporterName :: string
  ii_reporterPhone :: string
  ii_categoryId :: "ident option"
  ii_location :: string
  ii_priority :: string
  ii_mediaUrls :: "string list option"
  ii_userId :: "ident option"

record issue_form =
  f_title :: "string option"
  f_description :: "string option"
  f_state :: "string option"
  f_city :: "string option"
  f_reporterName :: "string option"
  f_reporterPhone :: "string option"
  f_categoryId :: "ident option"
  f_location :: "string option"
  f_priority :: "string option"

record insert_assignment =
  ia_issueId :: "ident option"
  ia_adminId :: "ident option"
  ia_assignedBy :: "ident option"
  ia_assignmentNotes :: "string option"

record resolve_issue =
  r_resolutionNotes :: string
  r_resolutionImageUrl :: string

text \<open>
  \<^verbatim>\<open>insertIssueSchema.parse({...req.body, userId, mediaUrls})\<close>: the eight
  \<^verbatim>\<open>notNull\<close> text columns without default are required strings (the empty string
  passes), \<^verbatim>\<open>categoryId\<close>, \<^verbatim>\<open>userId\<close> and \<^verbatim>\<open>mediaUrls\<close> are optional, and
  \<^verbatim>\<open>mediaUrls\<close> is any JSON value: no length is checked. \<open>None\<close> is the thrown
  \<^verbatim>\<open>ZodError\<close>.
\<close>

definition parse_insertIssue ::
  "issue_form \<Rightarrow> ident \<Rightarrow> string list \<Rightarrow> insert_issue option" where
  "parse_insertIssue f uid media =
     (case (f_title f, f_description f, f_state f, f_city f) of
        (Some t, Some d, Some st, Some ci) \<Rightarrow>
          (case (f_reporterName f, f_reporterPhone f, f_location f, f_priority f) of
             (Some rn, Some rp, Some lo, Some pr) \<Rightarrow>
               Some \<lparr>ii_title = t, ii_description = d, ii_state = st, ii_city = ci,
                     ii_reporterName = rn, ii_reporterPhone = rp,
                     ii_categoryId = f_categoryId f, ii_location = lo, ii_priority = pr,
                     ii_mediaUrls = Some media, ii_userId = Some uid\<rparr>
           | _ \<Rightarrow> None)
      | _ \<Rightarrow> None)"

text \<open>\<^verbatim>\<open>resolveIssueSchema\<close>: both fields are strings of length at least 1.\<close>

definition parse_resolveIssue :: "string option \<Rightarrow> string \<Rightarrow> resolve_issue option" where
  "parse_resolveIssue notes url =
     (case notes of
        None \<Rightarrow> None
      | Some n \<Rightarrow>
          if 1 \<le> length n \<and> 1 \<le> length url
          then Some \<lparr>r_resolutionNotes = n, r_resolutionImageUrl = url\<rparr>
          else None)"

section \<open>Storage operations (DatabaseStorage)\<close>

definition getUser :: "store \<Rightarrow> ident \<Rightarrow> user option" where
  "getUser s uid = find (\<lambda>u. u_id u = uid) (users s)"

definition getUserByEmail :: "store \<Rightarrow> string \<Rightarrow> user option" where
  "getUserByEmail s e = find (\<lambda>u. email u = e) (users s)"

text \<open>
  \<^verbatim>\<open>createUser\<close>: \<^verbatim>\<open>email\<close>, \<^verbatim>\<open>password\<close> and \<^verbatim>\<open>name\<close> are \<^verbatim>\<open>notNull\<close>, \<^verbatim>\<open>email\<close> is
  unique, and \<^verbatim>\<open>role\<close> has the default \<^verbatim>\<open>"citizen"\<close>, used when the inserted value
  has no role.
\<close>

definition createUser :: "store \<Rightarrow> timestamp \<Rightarrow> insert_user \<Rightarrow> db_error + (user \<times> store)" where
  "createUser s now iu =
     (case (iu_email iu, iu_password iu, iu_name iu) of
        (Some e, Some p, Some n) \<Rightarrow>
          if \<exists>u \<in> set (users s). email u = e then Inl UniqueViolation
          else
            let u = \<lparr>u_id = next_id s, email = e, password = p, name = n,
                     role = (case iu_role iu of None \<Rightarrow> ''citizen'' | Some r \<Rightarrow> r),
                     u_createdAt = now\<rparr>
            in Inr (u, s\<lparr>users := users s @ [u], next_id := Suc (next_id s)\<rparr>)
      | _ \<Rightarrow> Inl NotNullViolation)"

definition getAdminUsers :: "store \<Rightarrow> user list" where
  "getAdminUsers s = filter (\<lambda>u. role u = ''admin'') (users s)"

definition getCategories :: "store \<Rightarrow> category list" where
  "getCategories s = categories s"

definition createCategory :: "store \<Rightarrow> string \<Rightarrow> db_error + (category \<times> store)" where
  "createCategory s nm =
     (if \<exists>c \<in> set (categories s). c_name c = nm then Inl UniqueViolation
      else
        let c = \<lparr>c_id = next_id s, c_name = nm\<rparr>
        in Inr (c, s\<lparr>categories := categories s @ [c], next_id := Suc (next_id s)\<rparr>))"

text \<open>
  \<^verbatim>\<open>createIssue\<close>: the row gets the column defaults \<^verbatim>\<open>status = "not-assigned"\<close> and
  null resolution fields; \<^verbatim>\<open>category_id\<close> and \<^verbatim>\<open>user_id\<close> are foreign keys.
\<close>

definition createIssue :: "store \<Rightarrow> timestamp \<Rightarrow> insert_issue \<Rightarrow> db_error + (issue \<times> store)" where
  "createIssue s now ii =
     (if \<not> fk_ok (category_exists s) (ii_categoryId ii) \<or> \<not> fk_ok (user_exists s) (ii_userId ii)
      then Inl ForeignKeyViolation
      else
        let i = \<lparr>i_id = next_id s, title = ii_title ii, description = ii_description ii,
                 state = ii_state ii, city = ii_city ii, reporterName = ii_reporterName ii,
                 reporterPhone = ii_reporterPhone ii, categoryId = ii_categoryId ii,
                 location = ii_location ii, priority = ii_priority ii,
                 status = ''not-assigned'', mediaUrls = ii_mediaUrls ii,
                 userId = ii_userId ii, resolutionNotes = None, resolutionImageUrl = None,
                 resolvedBy = None, resolvedAt = None, createdAt = now\<rparr>
        in Inr (i, s\<lparr>issues := issues s @ [i], next_id := Suc (next_id s)\<rparr>))"

text \<open>\<^verbatim>\<open>UPDATE issues SET status = ... WHERE id = ...\<close>: no row, no effect.\<close>

definition updateIssueStatus :: "store \<Rightarrow> ident \<Rightarrow> string \<Rightarrow> store" where
  "updateIssueStatus s iid st =
     s\<lparr>issues := map (\<lambda>i. if i_id i = iid then i\<lparr>status := st\<rparr> else i) (issues s)\<rparr>"

text \<open>
  \<^verbatim>\<open>resolveIssue\<close>: one \<^verbatim>\<open>UPDATE\<close> writing the status and the four resolution
  fields of the rows with this id, whatever their status. \<^verbatim>\<open>resolved_by\<close> is a
  foreign key, checked when a row is written.
\<close>

definition resolveIssue ::
  "store \<Rightarrow> timestamp \<Rightarrow> ident \<Rightarrow> resolve_issue \<Rightarrow> ident \<Rightarrow> db_error + store" where
  "resolveIssue s now iid d by =
     (if issue_exists s iid \<and> \<not> user_exists s by then Inl ForeignKeyViolation
      else Inr (s\<lparr>issues :=
        map (\<lambda>i. if i_id i = iid
                 then i\<lparr>status := ''resolved'',
                        resolutionNotes := Some (r_resolutionNotes d),
                        resolutionImageUrl := Some (r_resolutionImageUrl d),
                        resolvedBy := Some by,
                        resolvedAt := Some now\<rparr>
                 else i) (issues s)\<rparr>))"

text \<open>
  \<^verbatim>\<open>toggleUpvote\<close> is three statements, each awaited on its own: the select of an
  existing row, the delete or the insert, and the count. The \<^verbatim>\<open>upvotes\<close> table
  declares a primary key and two foreign keys, and no uniqueness on
  (\<^verbatim>\<open>user_id\<close>, \<^verbatim>\<open>issue_id\<close>).
\<close>

definition selectUpvote :: "store \<Rightarrow> ident \<Rightarrow> ident \<Rightarrow> upvote list" where
  "selectUpvote s uid iid =
     take 1 (filter (\<lambda>v. up_userId v = Some uid \<and> up_issueId v = Some iid) (upvotes s))"

definition deleteUpvotes :: "store \<Rightarrow> ident \<Rightarrow> ident \<Rightarrow> store" where
  "deleteUpvotes s uid iid =
     s\<lparr>upvotes := filter (\<lambda>v. \<not> (up_userId v = Some uid \<and> up_issueId v = Some iid)) (upvotes s)\<rparr>"

definition insertUpvote :: "store \<Rightarrow> timestamp \<Rightarrow> ident \<Rightarrow> ident \<Rightarrow> db_error + store" where
  "insertUpvote s now uid iid =
     (if \<not> user_exists s uid \<or> \<not> issue_exists s iid then Inl ForeignKeyViolation
      else Inr (s\<lparr>upvotes := upvotes s @
                    [\<lparr>up_id = next_id s, up_userId = Some uid, up_issueId = Some iid,
                      up_createdAt = now\<rparr>],
                  next_id := Suc (next_id s)\<rparr>))"

definition countUpvotes :: "store \<Rightarrow> ident \<Rightarrow> nat" where
  "countUpvotes s iid = length (filter (\<lambda>v. up_issueId v = Some iid) (upvotes s))"

record toggle_result =
  upvoted :: bool
  count :: nat

definition toggleUpvote ::
  "store \<Rightarrow> timestamp \<Rightarrow> ident \<Rightarrow> ident \<Rightarrow> db_error + (toggle_result \<times> store)" where
  "toggleUpvote s now uid iid =
     (let existingUpvote = selectUpvote s uid iid in
      case (if length existingUpvote > 0 then Inr (deleteUpvotes s uid iid)
            else insertUpvote s now uid iid) of
        Inl e \<Rightarrow> Inl e
      | Inr s' \<Rightarrow>
          Inr (\<lparr>upvoted = (length existingUpvote = 0), count = countUpvotes s' iid\<rparr>, s'))"

text \<open>
  \<^verbatim>\<open>assignIssue\<close>: insert one assignment row (three foreign keys), then set the
  issue's status to \<^verbatim>\<open>"assigned"\<close>. The status of the issue is not read.
\<close>

definition assignIssue ::
  "store \<Rightarrow> timestamp \<Rightarrow> insert_assignment \<Rightarrow> db_error + (assignment \<times> store)" where
  "assignIssue s now ia =
     (if \<not> fk_ok (issue_exists s) (ia_issueId ia) \<or> \<not> fk_ok (user_exists s) (ia_adminId ia)
         \<or> \<not> fk_ok (user_exists s) (ia_assignedBy ia)
      then Inl ForeignKeyViolation
      else
        let a = \<lparr>as_id = next_id s, as_issueId = ia_issueId ia, adminId = ia_adminId ia,
                 assignedBy = ia_assignedBy ia, assignmentNotes = ia_assignmentNotes ia,
                 as_createdAt = now\<rparr>;
            s' = s\<lparr>assignments := assignments s @ [a], next_id := Suc (next_id s)\<rparr>
        in Inr (a, case ia_issueId ia of
                     Some iid \<Rightarrow> updateIssueStatus s' iid ''assigned''
                   | None \<Rightarrow> s'))"

text \<open>
  \<^verbatim>\<open>getAnalytics\<close>. The three status counts compare the stored status text. The
  most-upvoted query groups the issues with their upvote rows, orders the groups
  by \<^verbatim>\<open>COUNT(upvotes.id)\<close> descending and keeps three; the statement names no
  second sort key. SQL leaves the order of rows with equal keys to the executor:
  the model sorts stably, so such rows stay in the order of the table scan.
\<close>

record upvoted_issue =
  ui_issue :: issue
  ui_category :: "category option"
  upvoteCount :: nat

record analytics =
  totalIssues :: nat
  notAssigned :: nat
  assigned :: nat
  resolved :: nat
  categoryBreakdown :: "(string \<times> nat) list"
  mostUpvotedIssues :: "upvoted_issue list"

definition countStatus :: "store \<Rightarrow> string \<Rightarrow> nat" where
  "countStatus s st = length (filter (\<lambda>i. status i = st) (issues s))"

definition upvote_groups :: "store \<Rightarrow> upvoted_issue list" where
  "upvote_groups s =
     map (\<lambda>i. \<lparr>ui_issue = i,
               ui_category = (case categoryId i of
                                None \<Rightarrow> None
                              | Some c \<Rightarrow> find (\<lambda>k. c_id k = c) (categories s)),
               upvoteCount = countUpvotes s (i_id i)\<rparr>) (issues s)"

definition order_by_desc :: "('a \<Rightarrow> nat) \<Rightarrow> 'a list \<Rightarrow> 'a list" where
  "order_by_desc k rows = sort_key (\<lambda>r. - int (k r)) rows"

definition getAnalytics :: "store \<Rightarrow> analytics" where
  "getAnalytics s =
     \<lparr>totalIssues = length (issues s),
      notAssigned = countStatus s ''not-assigned'',
      assigned = countStatus s ''assigned'',
      resolved = countStatus s ''resolved'',
      categoryBreakdown =
        map (\<lambda>c. (c_name c, length (filter (\<lambda>i. categoryId i = Some (c_id c)) (issues s))))
            (categories s),
      mostUpvotedIssues = take 3 (order_by_desc upvoteCount (upvote_groups s))\<rparr>"

section \<open>Routes (registerRoutes, setupAuth)\<close>

text \<open>
  A response is its HTTP status with the JSON payload on success or the message on
  failure; \<open>Unhandled\<close> is an exception thrown outside any \<^verbatim>\<open>try\<close> block of the
  handler. A session carries the id of the logged-in user, and \<^verbatim>\<open>deserializeUser\<close>
  reads the user row of that id at every request.
\<close>

datatype 'a response = Success nat 'a | Failure nat string | Unhandled

definition authenticate :: "store \<Rightarrow> ident option \<Rightarrow> user option" where
  "authenticate s sess = (case sess of None \<Rightarrow> None | Some uid \<Rightarrow> getUser s uid)"

text \<open>
  The middleware chain \<^verbatim>\<open>requireAuth, requireRole(roles)\<close>: 401 without a session
  user, 403 when the user's role is not listed. A route without \<^verbatim>\<open>requireRole\<close>
  passes the empty guard \<open>None\<close>.
\<close>

definition guard ::
  "store \<Rightarrow> ident option \<Rightarrow> string list option \<Rightarrow> (user \<Rightarrow> 'a response \<times> store)
     \<Rightarrow> 'a response \<times> store" where
  "guard s sess roles handler =
     (case authenticate s sess of
        None \<Rightarrow> (Failure 401 ''Authentication required'', s)
      | Some u \<Rightarrow>
          (case roles of
             None \<Rightarrow> handler u
           | Some rs \<Rightarrow>
               if role u \<notin> set rs then (Failure 403 ''Insufficient permissions'', s)
               else handler u))"

record sanitized_user =
  su_id :: ident
  su_email :: string
  su_name :: string
  su_role :: string
  su_createdAt :: timestamp

definition sanitize :: "user \<Rightarrow> sanitized_user" where
  "sanitize u = \<lparr>su_id = u_id u, su_email = email u, su_name = name u, su_role = role u,
                  su_createdAt = u_createdAt u\<rparr>"

text \<open>
  \<^verbatim>\<open>POST /api/register\<close>: no middleware and no schema; the body is spread into the
  inserted value and only \<^verbatim>\<open>password\<close> is replaced, by its hash. \<^verbatim>\<open>hashPassword\<close>
  (scrypt with a random salt) is the parameter \<open>hash\<close>; it throws on a missing
  password. The handler has no \<^verbatim>\<open>try\<close> block. Of the body, the four fields
  \<^verbatim>\<open>email\<close>, \<^verbatim>\<open>password\<close>, \<^verbatim>\<open>name\<close> and \<^verbatim>\<open>role\<close> are modelled; the key and the
  creation time of the new row are taken from the column defaults.
\<close>

definition post_api_register ::
  "(string \<Rightarrow> string) \<Rightarrow> store \<Rightarrow> timestamp \<Rightarrow> insert_user
     \<Rightarrow> sanitized_user response \<times> store" where
  "post_api_register hash s now body =
     (case (case iu_email body of None \<Rightarrow> None | Some e \<Rightarrow> getUserByEmail s e) of
        Some existingUser \<Rightarrow> (Failure 400 ''Email already exists'', s)
      | None \<Rightarrow>
          (case iu_password body of
             None \<Rightarrow> (Unhandled, s)
           | Some pw \<Rightarrow>
               (case createUser s now (body\<lparr>iu_password := Some (hash pw)\<rparr>) of
                  Inl e \<Rightarrow> (Unhandled, s)
                | Inr (u, s') \<Rightarrow> (Success 201 (sanitize u), s'))))"

text \<open>\<^verbatim>\<open>POST /api/categories\<close>: \<^verbatim>\<open>requireAuth, requireRole(["superadmin"])\<close>.\<close>

definition post_api_categories ::
  "store \<Rightarrow> ident option \<Rightarrow> string option \<Rightarrow> category response \<times> store" where
  "post_api_categories s sess body_name =
     guard s sess (Some [''superadmin'']) (\<lambda>u.
       case body_name of
         None \<Rightarrow> (Failure 400 ''Invalid category data'', s)
       | Some nm \<Rightarrow>
           (case createCategory s nm of
              Inl e \<Rightarrow> (Failure 400 ''Invalid category data'', s)
            | Inr (c, s') \<Rightarrow> (Success 201 c, s')))"

text \<open>The reference stored for an uploaded file: \<^verbatim>\<open>`/uploads/${file.filename}`\<close>.\<close>

definition upload_url :: "string \<Rightarrow> string" where
  "upload_url filename = ''/uploads/'' @ filename"

text \<open>
  \<^verbatim>\<open>POST /api/issues\<close>: \<^verbatim>\<open>requireAuth\<close> and the upload middleware only; \<open>files\<close>
  are the names of the files the upload middleware stored (at most five reach the
  handler). Every exception becomes the 400 response.
\<close>

definition post_api_issues ::
  "store \<Rightarrow> timestamp \<Rightarrow> ident option \<Rightarrow> issue_form \<Rightarrow> string list
     \<Rightarrow> issue response \<times> store" where
  "post_api_issues s now sess body files =
     guard s sess None (\<lambda>u.
       let media = map upload_url files in
       case parse_insertIssue body (u_id u) media of
         None \<Rightarrow> (Failure 400 ''Invalid issue data'', s)
       | Some issueData \<Rightarrow>
           (case createIssue s now issueData of
              Inl e \<Rightarrow> (Failure 400 ''Invalid issue data'', s)
            | Inr (i, s') \<Rightarrow> (Success 201 i, s')))"

text \<open>\<^verbatim>\<open>POST /api/issues/:id/upvote\<close>: \<^verbatim>\<open>requireAuth\<close>; an exception is a 500.\<close>

definition post_api_issues_upvote ::
  "store \<Rightarrow> timestamp \<Rightarrow> ident option \<Rightarrow> ident \<Rightarrow> toggle_result response \<times> store" where
  "post_api_issues_upvote s now sess iid =
     guard s sess None (\<lambda>u.
       case toggleUpvote s now (u_id u) iid of
         Inl e \<Rightarrow> (Failure 500 ''Failed to toggle upvote'', s)
       | Inr (r, s') \<Rightarrow> (Success 200 r, s'))"

text \<open>
  \<^verbatim>\<open>POST /api/issues/:id/resolve\<close>: \<^verbatim>\<open>requireAuth, requireRole(["admin"])\<close>, one
  optional uploaded file. Without a file the image URL is the empty string, which
  the schema rejects.
\<close>

definition post_api_issues_resolve ::
  "store \<Rightarrow> timestamp \<Rightarrow> ident option \<Rightarrow> ident \<Rightarrow> string option \<Rightarrow> string option
     \<Rightarrow> string response \<times> store" where
  "post_api_issues_resolve s now sess iid body_notes file =
     guard s sess (Some [''admin'']) (\<lambda>u.
       let resolutionImageUrl = (case file of Some f \<Rightarrow> upload_url f | None \<Rightarrow> '''') in
       case parse_resolveIssue body_notes resolutionImageUrl of
         None \<Rightarrow> (Failure 400 ''Failed to resolve issue'', s)
       | Some resolveData \<Rightarrow>
           (case resolveIssue s now iid resolveData (u_id u) of
              Inl e \<Rightarrow> (Failure 400 ''Failed to resolve issue'', s)
            | Inr s' \<Rightarrow> (Success 200 ''Issue resolved successfully'', s')))"

text \<open>
  \<^verbatim>\<open>POST /api/issues/:id/assign\<close>: \<^verbatim>\<open>requireAuth, requireRole(["superadmin"])\<close>.
  The loop calls \<^verbatim>\<open>storage.assignIssue\<close> once per admin id, each call committing
  on its own; an exception leaves the loop for the 400 response, and what the
  earlier iterations wrote stays written. \<open>adminIds\<close> is \<open>None\<close> for a body
  without an array of that name; its elements are identifiers, which always pass
  \<^verbatim>\<open>insertAssignmentSchema\<close>, so that an iteration fails on a foreign key only.
\<close>

fun assign_loop ::
  "store \<Rightarrow> timestamp \<Rightarrow> ident \<Rightarrow> ident \<Rightarrow> string option \<Rightarrow> ident list \<Rightarrow> assignment list
     \<Rightarrow> (db_error + assignment list) \<times> store" where
  "assign_loop s now iid by notes [] acc = (Inr acc, s)"
| "assign_loop s now iid by notes (a # as) acc =
     (case assignIssue s now \<lparr>ia_issueId = Some iid, ia_adminId = Some a,
                               ia_assignedBy = Some by, ia_assignmentNotes = notes\<rparr> of
        Inl e \<Rightarrow> (Inl e, s)
      | Inr (x, s') \<Rightarrow> assign_loop s' now iid by notes as (acc @ [x]))"

definition post_api_issues_assign ::
  "store \<Rightarrow> timestamp \<Rightarrow> ident option \<Rightarrow> ident \<Rightarrow> ident list option \<Rightarrow> string option
     \<Rightarrow> assignment list response \<times> store" where
  "post_api_issues_assign s now sess iid adminIds notes =
     guard s sess (Some [''superadmin'']) (\<lambda>u.
       case adminIds of
         None \<Rightarrow> (Failure 400 ''At least one admin must be selected'', s)
       | Some ids \<Rightarrow>
           if length ids = 0 then (Failure 400 ''At least one admin must be selected'', s)
           else
             (case assign_loop s now iid (u_id u) notes ids [] of
                (Inl e, s') \<Rightarrow> (Failure 400 ''Failed to assign issue'', s')
              | (Inr as, s') \<Rightarrow> (Success 200 as, s')))"

text \<open>\<^verbatim>\<open>GET /api/analytics\<close>: \<^verbatim>\<open>requireAuth, requireRole(["admin", "superadmin"])\<close>.\<close>

definition get_api_analytics :: "store \<Rightarrow> ident option \<Rightarrow> analytics response \<times> store" where
  "get_api_analytics s sess =
     guard s sess (Some [''admin'', ''superadmin'']) (\<lambda>u. (Success 200 (getAnalytics s), s))"

section \<open>The server as a state machine\<close>

text \<open>
  The requests that write to the store, and the store after a request has been
  handled. A state is reachable when a sequence of requests leads to it from the
  empty database.
\<close>

datatype request =
    Register insert_user
  | CreateCategory "ident option" "string option"
  | SubmitIssue "ident option" issue_form "string list"
  | ToggleUpvote "ident option" ident
  | ResolveIssue "ident option" ident "string option" "string option"
  | AssignIssue "ident option" ident "ident list option" "string option"

fun handle :: "(string \<Rightarrow> string) \<Rightarrow> timestamp \<Rightarrow> request \<Rightarrow> store \<Rightarrow> store" where
  "handle hash now (Register body) s = snd (post_api_register hash s now body)"
| "handle hash now (CreateCategory sess nm) s = snd (post_api_categories s sess nm)"
| "handle hash now (SubmitIssue sess body files) s = snd (post_api_issues s now sess body files)"
| "handle hash now (ToggleUpvote sess iid) s = snd (post_api_issues_upvote s now sess iid)"
| "handle hash now (ResolveIssue sess iid notes file) s =
     snd (post_api_issues_resolve s now sess iid notes file)"
| "handle hash now (AssignIssue sess iid adminIds notes) s =
     snd (post_api_issues_assign s now sess iid adminIds notes)"

fun run :: "(string \<Rightarrow> string) \<Rightarrow> (timestamp \<times> request) list \<Rightarrow> store \<Rightarrow> store" where
  "run hash [] s = s"
| "run hash ((now, r) # rs) s = run hash rs (handle hash now r s)"

inductive reachable :: "store \<Rightarrow> bool" where
  reachable_init: "reachable init_store"
| reachable_step: "reachable s \<Longrightarrow> reachable (handle hash now r s)"

section \<open>Client pages\<close>

text \<open>
  What the pages of the client do before they call the routes above.
  \<^verbatim>\<open>AddIssuePage\<close> renders the report form for a citizen only, and its \<^verbatim>\<open>onSubmit\<close>
  sends nothing while no file is selected. The issue detail page renders the
  resolve button for an admin on an assigned issue and the assign button for a
  superadmin on a not-assigned issue.
\<close>

datatype submit_action = Toast string string | Mutate

definition onSubmit :: "string list \<Rightarrow> submit_action" where
  "onSubmit selectedFiles =
     (if length selectedFiles = 0
      then Toast ''Media required'' ''Please upload at least one image or video.''
      else Mutate)"

datatype add_issue_view = AccessDenied string | ReportForm

definition addIssuePage :: "user option \<Rightarrow> add_issue_view" where
  "addIssuePage u =
     (if map_option role u \<noteq> Some ''citizen''
      then AccessDenied ''Only citizens can submit issues.''
      else ReportForm)"

definition resolve_button_shown :: "user option \<Rightarrow> issue \<Rightarrow> bool" where
  "resolve_button_shown u i = (map_option role u = Some ''admin'' \<and> status i = ''assigned'')"

definition assign_button_shown :: "user option \<Rightarrow> issue \<Rightarrow> bool" where
  "assign_button_shown u i =
     (map_option role u = Some ''superadmin'' \<and> status i = ''not-assigned'')"

section \<open>Properties of a store\<close>

text \<open>Votes: the rows of a (user, issue) pair, and the users holding a vote on an issue.\<close>

definition has_vote :: "store \<Rightarrow> ident \<Rightarrow> ident \<Rightarrow> bool" where
  "has_vote s uid iid =
     list_ex (\<lambda>v. up_userId v = Some uid \<and> up_issueId v = Some iid) (upvotes s)"

definition vote_keys :: "store \<Rightarrow> (ident option \<times> ident option) list" where
  "vote_keys s = map (\<lambda>v. (up_userId v, up_issueId v)) (upvotes s)"

definition votes_unique :: "store \<Rightarrow> bool" where
  "votes_unique s = distinct (vote_keys s)"



text \<open>The source facts of an issue's status.\<close>

definition resolution_set :: "issue \<Rightarrow> bool" where
  "resolution_set i =
     (resolutionNotes i \<noteq> None \<and> resolutionImageUrl i \<noteq> None \<and> resolvedBy i \<noteq> None
      \<and> resolvedAt i \<noteq> None)"

definition resolution_null :: "issue \<Rightarrow> bool" where
  "resolution_null i =
     (resolutionNotes i = None \<and> resolutionImageUrl i = None \<and> resolvedBy i = None
      \<and> resolvedAt i = None)"

definition has_assignment :: "store \<Rightarrow> ident \<Rightarrow> bool" where
  "has_assignment s iid = list_ex (\<lambda>a. as_issueId a = Some iid) (assignments s)"

text \<open>The status in lock-step with its source facts, in both directions.\<close>

definition lockstep_issue :: "store \<Rightarrow> issue \<Rightarrow> bool" where
  "lockstep_issue s i =
     ((status i = ''resolved'') = resolution_set i
      \<and> (status i = ''assigned'') = (has_assignment s (i_id i) \<and> resolution_null i)
      \<and> (status i = ''not-assigned'') = (\<not> has_assignment s (i_id i) \<and> resolution_null i))"

definition status_lockstep :: "store \<Rightarrow> bool" where
  "status_lockstep s = list_all (lockstep_issue s) (issues s)"

text \<open>
  What the routes keep of it: the resolution fields are written together, the
  status is one of the three texts, \<^verbatim>\<open>"not-assigned"\<close> is exact, and the two other
  statuses have their fact.
\<close>

definition consistent_issue :: "store \<Rightarrow> issue \<Rightarrow> bool" where
  "consistent_issue s i =
     ((resolution_set i \<or> resolution_null i)
      \<and> (status i = ''not-assigned'' \<or> status i = ''assigned'' \<or> status i = ''resolved'')
      \<and> (status i = ''not-assigned'') = (\<not> has_assignment s (i_id i) \<and> resolution_null i)
      \<and> (if status i = ''resolved'' then resolution_set i else True)
      \<and> (if status i = ''assigned'' then has_assignment s (i_id i) else True))"

definition status_consistent :: "store \<Rightarrow> bool" where
  "status_consistent s = list_all (consistent_issue s) (issues s)"

text \<open>Referential integrity and key generation, as the database keeps them.\<close>

definition refs_ok :: "store \<Rightarrow> bool" where
  "refs_ok s =
     (list_all (\<lambda>v. fk_ok (issue_exists s) (up_issueId v)) (upvotes s)
      \<and> list_all (\<lambda>a. fk_ok (issue_exists s) (as_issueId a)) (assignments s)
      \<and> list_all (\<lambda>i. i_id i < next_id s) (issues s))"

definition store_inv :: "store \<Rightarrow> bool" where
  "store_inv s = (votes_unique s \<and> refs_ok s \<and> status_consistent s)"



definition http_status :: "'a response \<Rightarrow> nat option" where
  "http_status r = (case r of Success c x \<Rightarrow> Some c | Failure c m \<Rightarrow> Some c | Unhandled \<Rightarrow> None)"

section \<open>Example requests\<close>

text \<open>
  A citizen (id 0), an admin (id 1) and a superadmin (id 2) register, and the
  citizen reports one issue (id 3) with one file.
\<close>

definition registration :: "string \<Rightarrow> string option \<Rightarrow> request" where
  "registration e r =
     Register \<lparr>iu_email = Some e, iu_password = Some ''secret'', iu_name = Some ''N'',
               iu_role = r\<rparr>"

definition pothole :: issue_form where
  "pothole = \<lparr>f_title = Some ''Pothole on Main St'', f_description = Some ''Deep'',
              f_state = Some ''texas'', f_city = Some ''austin'',
              f_reporterName = Some ''N'', f_reporterPhone = Some ''555'',
              f_categoryId = None, f_location = Some ''Main St'', f_priority = Some ''high''\<rparr>"

definition three_users :: "(timestamp \<times> request) list" where
  "three_users =
     [(1, registration ''c@x.org'' None),
      (2, registration ''a@x.org'' (Some ''admin'')),
      (3, registration ''s@x.org'' (Some ''superadmin''))]"

definition one_issue :: "(timestamp \<times> request) list" where
  "one_issue = three_users @ [(4, SubmitIssue (Some 0) pothole [''a.png''])]"

definition users_store :: store where
  "users_store = run (\<lambda>p. p) three_users init_store"

definition issue_store :: store where
  "issue_store = run (\<lambda>p. p) one_issue init_store"




text \<open>
  The admin resolves the reported issue while it is not assigned, and the
  superadmin assigns the resolved issue to the admin afterwards.
\<close>

definition resolve_then_assign :: "(timestamp \<times> request) list" where
  "resolve_then_assign =
     one_issue @ [(5, ResolveIssue (Some 1) 3 (Some ''Filled'') (Some ''p.png'')),
                  (6, AssignIssue (Some 2) 3 (Some [1]) (Some ''urgent''))]"

definition reassigned_store :: store where
  "reassigned_store = run (\<lambda>p. p) resolve_then_assign init_store"

section \<open>Registration\<close>

lemma getUserByEmail_None:
  "getUserByEmail s e = None \<longleftrightarrow> \<not> (\<exists>u \<in> set (users s). email u = e)"
  by (auto simp: getUserByEmail_def find_None_iff)

text \<open>
  Claim C7. A registration request with an email that is not registered yet, a
  password and a name creates a user (status 201) whose role is the role field of
  the request body when the body has one, and \<^verbatim>\<open>"citizen"\<close> when it has none. The
  handler takes no session and compares the requested role with nothing, so the
  role may be \<^verbatim>\<open>"admin"\<close> or \<^verbatim>\<open>"superadmin"\<close>.
\<close>

theorem register_role_from_body:
  assumes em: "iu_email body = Some e" and pw: "iu_password body = Some pw"
    and nm: "iu_name body = Some n" and fresh: "getUserByEmail s e = None"
  shows "\<exists>u s'. post_api_register hash s now body = (Success 201 (sanitize u), s')
           \<and> users s' = users s @ [u]
           \<and> role u = (case iu_role body of None \<Rightarrow> ''citizen'' | Some r \<Rightarrow> r)"
proof -
  from fresh have uniq: "\<not> (\<exists>u \<in> set (users s). email u = e)"
    by (simp add: getUserByEmail_None)
  define u where "u = \<lparr>u_id = next_id s, email = e, password = hash pw, name = n,
     role = (case iu_role body of None \<Rightarrow> ''citizen'' | Some r \<Rightarrow> r), u_createdAt = now\<rparr>"
  have cu: "createUser s now (body\<lparr>iu_password := Some (hash pw)\<rparr>)
      = Inr (u, s\<lparr>users := users s @ [u], next_id := Suc (next_id s)\<rparr>)"
    using em nm uniq by (simp add: createUser_def u_def Let_def)
  have "post_api_register hash s now body
      = (Success 201 (sanitize u), s\<lparr>users := users s @ [u], next_id := Suc (next_id s)\<rparr>)"
    by (simp add: post_api_register_def em pw fresh cu)
  moreover have "role u = (case iu_role body of None \<Rightarrow> ''citizen'' | Some r \<Rightarrow> r)"
    by (simp add: u_def)
  ultimately show ?thesis by auto
qed

theorem register_role_from_body_witness:
  "\<exists>u s'. post_api_register (\<lambda>p. p) init_store 0
        \<lparr>iu_email = Some ''m@x.org'', iu_password = Some ''pw'', iu_name = Some ''M'',
         iu_role = Some ''superadmin''\<rparr> = (Success 201 (sanitize u), s')
      \<and> users s' = users init_store @ [u] \<and> role u = ''superadmin''"
  using register_role_from_body [of "\<lparr>iu_email = Some ''m@x.org'',
         iu_password = Some ''pw'', iu_name = Some ''M'', iu_role = Some ''superadmin''\<rparr>"
         "''m@x.org''" "''pw''" "''M''" init_store "\<lambda>p. p" 0]
  by (simp add: getUserByEmail_def init_store_def)

section \<open>The store predicates as statements about rows\<close>

lemma has_vote_iff:
  "has_vote s uid iid \<longleftrightarrow>
     (\<exists>v \<in> set (upvotes s). up_userId v = Some uid \<and> up_issueId v = Some iid)"
  by (simp add: has_vote_def list_ex_iff)

lemma has_assignment_iff:
  "has_assignment s iid \<longleftrightarrow> (\<exists>a \<in> set (assignments s). as_issueId a = Some iid)"
  by (simp add: has_assignment_def list_ex_iff)

lemma refs_ok_iff:
  "refs_ok s \<longleftrightarrow>
     (\<forall>v \<in> set (upvotes s). \<forall>k. up_issueId v = Some k \<longrightarrow> issue_exists s k)
     \<and> (\<forall>a \<in> set (assignments s). \<forall>k. as_issueId a = Some k \<longrightarrow> issue_exists s k)
     \<and> (\<forall>i \<in> set (issues s). i_id i < next_id s)"
  by (auto simp: refs_ok_def list_all_iff fk_ok_def split: option.splits)

lemma status_consistent_iff:
  "status_consistent s \<longleftrightarrow> (\<forall>i \<in> set (issues s). consistent_issue s i)"
  by (simp add: status_consistent_def list_all_iff)

lemma issue_exists_iff: "issue_exists s k \<longleftrightarrow> k \<in> set (map i_id (issues s))"
  by (auto simp: issue_exists_def)

lemma user_exists_cong: "users s1 = users s \<Longrightarrow> user_exists s1 = user_exists s"
  by (simp add: user_exists_def fun_eq_iff)


lemma authenticate_user:
  assumes "authenticate s sess = Some u"
  shows "user_exists s (u_id u)"
proof -
  from assms obtain uid where "find (\<lambda>x. u_id x = uid) (users s) = Some u"
    by (auto simp: authenticate_def getUser_def split: option.splits)
  then have "u \<in> set (users s)"
    by (auto simp: find_Some_iff)
  then show ?thesis by (auto simp: user_exists_def)
qed

section \<open>What each storage operation keeps\<close>

text \<open>
  Three properties are followed through every write: one row per (user, issue)
  pair, referential integrity with keys below the counter, and the consistency of
  each status with its facts.
\<close>

lemma consistent_issue_cong:
  "assignments s' = assignments s \<Longrightarrow> consistent_issue s' i = consistent_issue s i"
  by (simp add: consistent_issue_def has_assignment_def)

lemma frame_inv:
  assumes "issues s' = issues s" "upvotes s' = upvotes s" "assignments s' = assignments s"
    "next_id s \<le> next_id s'"
  shows "votes_unique s \<Longrightarrow> votes_unique s'"
    and "refs_ok s \<Longrightarrow> refs_ok s'"
    and "status_consistent s \<Longrightarrow> status_consistent s'"
  using assms consistent_issue_cong [of s' s]
  by (auto simp: votes_unique_def vote_keys_def refs_ok_iff issue_exists_def
      status_consistent_iff)

lemma frame_store_inv:
  assumes "issues s' = issues s \<and> upvotes s' = upvotes s \<and> assignments s' = assignments s
     \<and> next_id s \<le> next_id s'" and "store_inv s"
  shows "store_inv s'"
  using assms frame_inv [of s' s] by (simp add: store_inv_def)

lemma createUser_frame:
  "createUser s now iu = Inr (u, s') \<Longrightarrow>
     issues s' = issues s \<and> upvotes s' = upvotes s \<and> assignments s' = assignments s
     \<and> next_id s \<le> next_id s'"
  by (auto simp: createUser_def Let_def split: option.splits if_splits)

lemma createCategory_frame:
  "createCategory s nm = Inr (c, s') \<Longrightarrow>
     issues s' = issues s \<and> upvotes s' = upvotes s \<and> assignments s' = assignments s
     \<and> next_id s \<le> next_id s'"
  by (auto simp: createCategory_def Let_def split: option.splits if_splits)

lemma createIssue_inv:
  assumes "createIssue s now ii = Inr (i, s')"
  shows "votes_unique s \<Longrightarrow> votes_unique s'"
    and "refs_ok s \<Longrightarrow> refs_ok s'"
    and "refs_ok s \<Longrightarrow> status_consistent s \<Longrightarrow> status_consistent s'"
proof -
  from assms have s': "s' = s\<lparr>issues := issues s @ [i], next_id := Suc (next_id s)\<rparr>"
    and i: "i_id i = next_id s" "status i = ''not-assigned''" "resolution_null i"
    by (auto simp: createIssue_def Let_def resolution_null_def split: if_splits)
  show "votes_unique s \<Longrightarrow> votes_unique s'"
    by (simp add: s' votes_unique_def vote_keys_def)
  show r: "refs_ok s \<Longrightarrow> refs_ok s'"
    using i by (auto simp: s' refs_ok_iff issue_exists_def)
  assume ro: "refs_ok s" and sc: "status_consistent s"
  have na: "\<not> has_assignment s (next_id s)"
    using ro by (fastforce simp: refs_ok_iff has_assignment_iff issue_exists_def)
  have "has_assignment s' (i_id i) = has_assignment s (next_id s)"
    by (simp add: has_assignment_def s' i(1))
  with na have na': "\<not> has_assignment s' (i_id i)" by simp
  have "\<not> resolution_set i"
    using i(3) by (simp add: resolution_null_def resolution_set_def)
  then have "consistent_issue s' i"
    unfolding consistent_issue_def using na' i(2,3) by simp
  moreover have "\<forall>j \<in> set (issues s). consistent_issue s' j"
    using sc consistent_issue_cong [of s' s] by (simp add: status_consistent_iff s')
  ultimately show "status_consistent s'"
    by (simp add: status_consistent_iff s')
qed

lemma consistent_resolved:
  "consistent_issue s (i\<lparr>status := ''resolved'', resolutionNotes := Some a,
     resolutionImageUrl := Some b, resolvedBy := Some c, resolvedAt := Some d\<rparr>)"
  by (simp add: consistent_issue_def resolution_set_def resolution_null_def)

lemma consistent_assigned:
  assumes "consistent_issue s i" and "has_assignment s' (i_id i)"
  shows "consistent_issue s' (i\<lparr>status := ''assigned''\<rparr>)"
  using assms by (simp add: consistent_issue_def resolution_set_def resolution_null_def)

lemma consistent_same:
  assumes "consistent_issue s i" and "has_assignment s' (i_id i) = has_assignment s (i_id i)"
  shows "consistent_issue s' i"
proof -
  have "consistent_issue s' i = consistent_issue s i"
    by (simp only: consistent_issue_def assms(2))
  with assms(1) show ?thesis by simp
qed

lemma status_consistent_map:
  assumes "issues s' = map f xs" and "\<And>i. i \<in> set xs \<Longrightarrow> consistent_issue s' (f i)"
  shows "status_consistent s'"
  using assms by (simp add: status_consistent_def list_all_iff)

lemma resolveIssue_inv:
  assumes "resolveIssue s now iid d by = Inr s'"
  shows "votes_unique s \<Longrightarrow> votes_unique s'"
    and "refs_ok s \<Longrightarrow> refs_ok s'"
    and "status_consistent s \<Longrightarrow> status_consistent s'"
proof -
  define f :: "issue \<Rightarrow> issue" where "f = (\<lambda>i. if i_id i = iid
                 then i\<lparr>status := ''resolved'',
                        resolutionNotes := Some (r_resolutionNotes d),
                        resolutionImageUrl := Some (r_resolutionImageUrl d),
                        resolvedBy := Some by,
                        resolvedAt := Some now\<rparr>
                 else i)"
  from assms have s': "s' = s\<lparr>issues := map f (issues s)\<rparr>"
    by (auto simp: resolveIssue_def f_def split: if_splits)
  have "i_id \<circ> f = i_id" by (auto simp: fun_eq_iff f_def)
  then have ids: "map i_id (issues s') = map i_id (issues s)"
    by (simp add: s')
  have ex: "issue_exists s' = issue_exists s"
    by (simp add: issue_exists_iff ids fun_eq_iff)
  show "votes_unique s \<Longrightarrow> votes_unique s'"
    by (simp add: s' votes_unique_def vote_keys_def)
  show "refs_ok s \<Longrightarrow> refs_ok s'"
    unfolding refs_ok_iff ex using ids by (auto simp: s')
  assume sc: "status_consistent s"
  have asg: "has_assignment s' = has_assignment s"
    by (simp add: has_assignment_def s' fun_eq_iff)
  have iss: "issues s' = map f (issues s)" by (simp add: s')
  show "status_consistent s'"
  proof (rule status_consistent_map [OF iss])
    fix i assume "i \<in> set (issues s)"
    with sc have c: "consistent_issue s i" by (simp add: status_consistent_iff)
    show "consistent_issue s' (f i)"
    proof (cases "i_id i = iid")
      case True
      then show ?thesis by (simp add: f_def consistent_resolved)
    next
      case False
      then show ?thesis using consistent_same [OF c, of s'] by (simp add: f_def asg)
    qed
  qed
qed

lemma assignIssue_inv:
  assumes "assignIssue s now ia = Inr (a, s')"
  shows "votes_unique s \<Longrightarrow> votes_unique s'"
    and "refs_ok s \<Longrightarrow> refs_ok s'"
    and "status_consistent s \<Longrightarrow> status_consistent s'"
proof -
  define f :: "issue \<Rightarrow> issue" where "f = (\<lambda>i. case ia_issueId ia of
       Some iid \<Rightarrow> if i_id i = iid then i\<lparr>status := ''assigned''\<rparr> else i
     | None \<Rightarrow> i)"
  from assms have a: "as_issueId a = ia_issueId ia"
    and fk: "fk_ok (issue_exists s) (ia_issueId ia)"
    by (auto simp: assignIssue_def Let_def split: if_splits)
  from assms have iss: "issues s' = map f (issues s)"
    and ups: "upvotes s' = upvotes s" and asg: "assignments s' = assignments s @ [a]"
    and nid: "next_id s' = Suc (next_id s)"
    by (auto simp: assignIssue_def Let_def updateIssueStatus_def f_def
        split: if_splits option.splits)
  have "i_id \<circ> f = i_id" by (auto simp: fun_eq_iff f_def split: option.splits)
  then have ids: "map i_id (issues s') = map i_id (issues s)"
    by (simp add: iss)
  have ex: "issue_exists s' = issue_exists s"
    by (simp add: issue_exists_iff ids fun_eq_iff)
  show "votes_unique s \<Longrightarrow> votes_unique s'"
    by (simp add: ups votes_unique_def vote_keys_def)
  have lt: "(\<forall>i \<in> set (issues s'). i_id i < n) = (\<forall>i \<in> set (issues s). i_id i < n)" for n
  proof -
    have "(\<forall>i \<in> set (issues s'). i_id i < n) = (\<forall>k \<in> set (map i_id (issues s')). k < n)"
      by simp
    also have "\<dots> = (\<forall>k \<in> set (map i_id (issues s)). k < n)" by (simp only: ids)
    finally show ?thesis by simp
  qed
  show "refs_ok s \<Longrightarrow> refs_ok s'"
    unfolding refs_ok_iff ex ups asg nid lt using fk a
    by (auto simp: fk_ok_def split: option.splits)
  assume sc: "status_consistent s"
  have ha: "has_assignment s' k = (has_assignment s k \<or> ia_issueId ia = Some k)" for k
    by (auto simp: has_assignment_iff asg a)
  show "status_consistent s'"
  proof (rule status_consistent_map [OF iss])
    fix i assume "i \<in> set (issues s)"
    with sc have c: "consistent_issue s i" by (simp add: status_consistent_iff)
    show "consistent_issue s' (f i)"
    proof (cases "ia_issueId ia = Some (i_id i)")
      case True
      then show ?thesis using consistent_assigned [OF c, of s'] by (simp add: f_def ha)
    next
      case False
      then have "f i = i" by (auto simp: f_def split: option.splits)
      then show ?thesis using consistent_same [OF c, of s'] False by (simp add: ha)
    qed
  qed
qed

lemma assign_loop_inv:
  assumes "assign_loop s now iid by notes ids acc = (res, s')"
  shows "votes_unique s \<Longrightarrow> votes_unique s'"
    and "refs_ok s \<Longrightarrow> refs_ok s'"
    and "status_consistent s \<Longrightarrow> status_consistent s'"
  using assms
proof (induction ids arbitrary: s acc)
  case Nil
  { case 1 then show ?case by simp
  next case 2 then show ?case by simp
  next case 3 then show ?case by simp }
next
  case (Cons a ids)
  let ?ia = "\<lparr>ia_issueId = Some iid, ia_adminId = Some a,
                               ia_assignedBy = Some by, ia_assignmentNotes = notes\<rparr>"
  { case 1
    show ?case
    proof (cases "assignIssue s now ?ia")
      case (Inl e)
      with 1 show ?thesis by simp
    next
      case (Inr p)
      then obtain x s1 where p: "assignIssue s now ?ia = Inr (x, s1)" by (cases p) auto
      with 1 have "assign_loop s1 now iid by notes ids (acc @ [x]) = (res, s')" by simp
      with Cons.IH(1) [of s1] assignIssue_inv(1) [OF p] 1 show ?thesis by blast
    qed
  next
    case 2
    show ?case
    proof (cases "assignIssue s now ?ia")
      case (Inl e)
      with 2 show ?thesis by simp
    next
      case (Inr p)
      then obtain x s1 where p: "assignIssue s now ?ia = Inr (x, s1)" by (cases p) auto
      with 2 have "assign_loop s1 now iid by notes ids (acc @ [x]) = (res, s')" by simp
      with Cons.IH(2) [of s1] assignIssue_inv(2) [OF p] 2 show ?thesis by blast
    qed
  next
    case 3
    show ?case
    proof (cases "assignIssue s now ?ia")
      case (Inl e)
      with 3 show ?thesis by simp
    next
      case (Inr p)
      then obtain x s1 where p: "assignIssue s now ?ia = Inr (x, s1)" by (cases p) auto
      with 3 have "assign_loop s1 now iid by notes ids (acc @ [x]) = (res, s')" by simp
      with Cons.IH(3) [of s1] assignIssue_inv(3) [OF p] 3 show ?thesis by blast
    qed }
qed

section \<open>Votes\<close>

lemma selectUpvote_empty: "selectUpvote s uid iid = [] \<longleftrightarrow> \<not> has_vote s uid iid"
  by (auto simp: selectUpvote_def has_vote_iff filter_empty_conv)

lemma distinct_filter_map:
  "distinct (map f xs) \<Longrightarrow> distinct (map f (filter P xs))"
  by (induction xs) auto


lemma toggle_remove:
  assumes "has_vote s uid iid"
  shows "toggleUpvote s now uid iid =
     Inr (\<lparr>upvoted = False, count = countUpvotes (deleteUpvotes s uid iid) iid\<rparr>,
          deleteUpvotes s uid iid)"
  using assms selectUpvote_empty [of s uid iid]
  by (simp add: toggleUpvote_def Let_def)

lemma toggle_add:
  assumes "\<not> has_vote s uid iid"
  shows "toggleUpvote s now uid iid =
     (case insertUpvote s now uid iid of
        Inl e \<Rightarrow> Inl e
      | Inr s' \<Rightarrow> Inr (\<lparr>upvoted = True, count = countUpvotes s' iid\<rparr>, s'))"
  using assms selectUpvote_empty [of s uid iid]
  by (simp add: toggleUpvote_def Let_def split: sum.splits)



lemma delete_votes_unique: "votes_unique s \<Longrightarrow> votes_unique (deleteUpvotes s uid iid)"
  by (simp add: deleteUpvotes_def votes_unique_def vote_keys_def distinct_filter_map)

lemma delete_fields:
  "users (deleteUpvotes s uid iid) = users s"
  "issues (deleteUpvotes s uid iid) = issues s"
  "assignments (deleteUpvotes s uid iid) = assignments s"
  "next_id (deleteUpvotes s uid iid) = next_id s"
  "set (upvotes (deleteUpvotes s uid iid)) \<subseteq> set (upvotes s)"
  by (auto simp: deleteUpvotes_def)


lemma insert_vote_keys:
  "insertUpvote s now uid iid = Inr s' \<Longrightarrow> vote_keys s' = vote_keys s @ [(Some uid, Some iid)]"
  by (auto simp: insertUpvote_def vote_keys_def split: if_splits)

lemma insert_votes_unique:
  assumes "insertUpvote s now uid iid = Inr s'" and "\<not> has_vote s uid iid"
    and "votes_unique s"
  shows "votes_unique s'"
proof -
  from assms(2) have "(Some uid, Some iid) \<notin> set (vote_keys s)"
    by (auto simp: has_vote_iff vote_keys_def)
  then show ?thesis
    using assms(3) insert_vote_keys [OF assms(1)] by (simp add: votes_unique_def)
qed

lemma insert_fields:
  assumes "insertUpvote s now uid iid = Inr s'"
  shows "users s' = users s" and "issues s' = issues s" and "assignments s' = assignments s"
    and "next_id s' = Suc (next_id s)" and "issue_exists s iid"
    and "\<exists>v. upvotes s' = upvotes s @ [v] \<and> up_issueId v = Some iid"
  using assms by (auto simp: insertUpvote_def split: if_splits)

lemma toggleUpvote_cases:
  assumes "toggleUpvote s now uid iid = Inr (r, s')"
  obtains (del) "has_vote s uid iid" and "s' = deleteUpvotes s uid iid"
  | (ins) "\<not> has_vote s uid iid" and "insertUpvote s now uid iid = Inr s'"
proof (cases "has_vote s uid iid")
  case True
  with assms have "s' = deleteUpvotes s uid iid" by (simp add: toggle_remove)
  with True show ?thesis by (rule del)
next
  case False
  with assms have "insertUpvote s now uid iid = Inr s'"
    by (auto simp: toggle_add split: sum.splits)
  with False show ?thesis by (rule ins)
qed

lemma toggleUpvote_votes_unique:
  assumes "toggleUpvote s now uid iid = Inr (r, s')" and "votes_unique s"
  shows "votes_unique s'"
  using assms(1)
proof (cases rule: toggleUpvote_cases)
  case del
  then show ?thesis using assms(2) by (simp add: delete_votes_unique)
next
  case ins
  then show ?thesis using assms(2) insert_votes_unique by blast
qed

lemma toggleUpvote_refs_ok:
  assumes "toggleUpvote s now uid iid = Inr (r, s')" and "refs_ok s"
  shows "refs_ok s'"
  using assms(1)
proof (cases rule: toggleUpvote_cases)
  case del
  then show ?thesis
    using assms(2) delete_fields [of s uid iid]
    by (auto simp: refs_ok_iff issue_exists_def)
next
  case ins
  note f = insert_fields [OF ins(2)]
  from f(6) obtain v where v: "upvotes s' = upvotes s @ [v]" "up_issueId v = Some iid"
    by blast
  show ?thesis
    using assms(2) f(2,3,4,5) v by (auto simp: refs_ok_iff issue_exists_def)
qed

lemma toggleUpvote_status_consistent:
  assumes "toggleUpvote s now uid iid = Inr (r, s')" and "status_consistent s"
  shows "status_consistent s'"
proof -
  have "issues s' = issues s \<and> assignments s' = assignments s"
    using assms(1)
  proof (cases rule: toggleUpvote_cases)
    case del
    then show ?thesis by (simp add: delete_fields)
  next
    case ins
    then show ?thesis by (simp add: insert_fields)
  qed
  then show ?thesis
    using assms(2) consistent_issue_cong [of s' s] by (simp add: status_consistent_iff)
qed





section \<open>Reachable states\<close>

lemma guard_inv:
  assumes "store_inv s" and "\<And>u. store_inv (snd (handler u))"
  shows "store_inv (snd (guard s sess roles handler))"
  using assms by (auto simp: guard_def split: option.splits)

lemma register_inv:
  assumes "store_inv s"
  shows "store_inv (snd (post_api_register hash s now body))"
  using assms createUser_frame frame_store_inv
  by (fastforce simp: post_api_register_def split: option.splits sum.splits)

lemma categories_inv:
  assumes "store_inv s"
  shows "store_inv (snd (post_api_categories s sess nm))"
  unfolding post_api_categories_def
proof (rule guard_inv [OF assms])
  fix u
  show "store_inv (snd (case nm of
         None \<Rightarrow> (Failure 400 ''Invalid category data'', s)
       | Some nm \<Rightarrow>
           (case createCategory s nm of
              Inl e \<Rightarrow> (Failure 400 ''Invalid category data'', s)
            | Inr (c, s') \<Rightarrow> (Success 201 c, s'))))"
    using assms createCategory_frame frame_store_inv
    by (fastforce split: option.splits sum.splits)
qed

lemma issues_inv:
  assumes "store_inv s"
  shows "store_inv (snd (post_api_issues s now sess body files))"
  unfolding post_api_issues_def
proof (rule guard_inv [OF assms])
  fix u
  show "store_inv (snd (let media = map upload_url files in
       case parse_insertIssue body (u_id u) media of
         None \<Rightarrow> (Failure 400 ''Invalid issue data'', s)
       | Some issueData \<Rightarrow>
           (case createIssue s now issueData of
              Inl e \<Rightarrow> (Failure 400 ''Invalid issue data'', s)
            | Inr (i, s') \<Rightarrow> (Success 201 i, s'))))"
    using assms createIssue_inv
    by (auto simp: Let_def store_inv_def split: option.splits sum.splits)
qed

lemma upvote_inv:
  assumes "store_inv s"
  shows "store_inv (snd (post_api_issues_upvote s now sess iid))"
  unfolding post_api_issues_upvote_def
proof (rule guard_inv [OF assms])
  fix u
  show "store_inv (snd (case toggleUpvote s now (u_id u) iid of
         Inl e \<Rightarrow> (Failure 500 ''Failed to toggle upvote'', s)
       | Inr (r, s') \<Rightarrow> (Success 200 r, s')))"
    using assms toggleUpvote_votes_unique toggleUpvote_refs_ok toggleUpvote_status_consistent
    by (auto simp: store_inv_def split: sum.splits)
qed

lemma resolve_inv:
  assumes "store_inv s"
  shows "store_inv (snd (post_api_issues_resolve s now sess iid body_notes file))"
  unfolding post_api_issues_resolve_def
proof (rule guard_inv [OF assms])
  fix u
  show "store_inv (snd (let resolutionImageUrl =
                            (case file of Some f \<Rightarrow> upload_url f | None \<Rightarrow> '''') in
       case parse_resolveIssue body_notes resolutionImageUrl of
         None \<Rightarrow> (Failure 400 ''Failed to resolve issue'', s)
       | Some resolveData \<Rightarrow>
           (case resolveIssue s now iid resolveData (u_id u) of
              Inl e \<Rightarrow> (Failure 400 ''Failed to resolve issue'', s)
            | Inr s' \<Rightarrow> (Success 200 ''Issue resolved successfully'', s'))))"
    using assms resolveIssue_inv
    by (auto simp: Let_def store_inv_def split: option.splits sum.splits)
qed

lemma assign_inv:
  assumes "store_inv s"
  shows "store_inv (snd (post_api_issues_assign s now sess iid adminIds body_notes))"
  unfolding post_api_issues_assign_def
proof (rule guard_inv [OF assms])
  fix u
  show "store_inv (snd (case adminIds of
         None \<Rightarrow> (Failure 400 ''At least one admin must be selected'', s)
       | Some ids \<Rightarrow>
           if length ids = 0 then (Failure 400 ''At least one admin must be selected'', s)
           else
             (case assign_loop s now iid (u_id u) body_notes ids [] of
                (Inl e, s') \<Rightarrow> (Failure 400 ''Failed to assign issue'', s')
              | (Inr as, s') \<Rightarrow> (Success 200 as, s'))))"
    using assms assign_loop_inv
    by (auto simp: store_inv_def split: option.splits sum.splits prod.splits)
qed

lemma handle_inv: "store_inv s \<Longrightarrow> store_inv (handle hash now r s)"
  by (cases r)
    (simp_all add: register_inv categories_inv issues_inv upvote_inv resolve_inv assign_inv)

lemma init_inv: "store_inv init_store"
  by (simp add: store_inv_def init_store_def votes_unique_def vote_keys_def refs_ok_def
      status_consistent_def)

lemma reachable_inv: "reachable s \<Longrightarrow> store_inv s"
  by (induction rule: reachable.induct) (simp_all add: init_inv handle_inv)

lemma reachable_run: "reachable s \<Longrightarrow> reachable (run hash rs s)"
  by (induction rs arbitrary: s) (auto simp: reachable_step)

lemma reachable_issue_store: "reachable issue_store"
  unfolding issue_store_def by (rule reachable_run [OF reachable_init])




text \<open>
  Claim C1. After the admin has resolved the reported issue and the superadmin has
  assigned it, the issue's status is \<^verbatim>\<open>"assigned"\<close> while its four resolution fields
  are set: the state is reachable and its status is not in lock-step.
\<close>

theorem status_lockstep_broken:
  "reachable reassigned_store
   \<and> map status (issues reassigned_store) = [''assigned'']
   \<and> map resolution_set (issues reassigned_store) = [True]
   \<and> \<not> status_lockstep reassigned_store"
proof (intro conjI)
  show "reachable reassigned_store"
    unfolding reassigned_store_def by (rule reachable_run [OF reachable_init])
qed code_simp+

text \<open>
  What does hold in every reachable state: the four resolution fields are set or
  null together, \<^verbatim>\<open>"not-assigned"\<close> is the status exactly of the issues with no
  assignment row and null resolution fields, a resolved issue has its resolution
  fields and an assigned issue has an assignment row.
\<close>

lemma reachable_status_consistent: "reachable s \<Longrightarrow> status_consistent s"
  using reachable_inv [of s] by (simp add: store_inv_def)

text \<open>
  Claim C9. In a reachable state, an upvote by a logged-in user for an issue id
  that no issue has is answered with status 500 and the message of every failed
  toggle, and the store is unchanged; in particular no vote row is inserted.
\<close>

theorem upvote_missing_issue:
  assumes "reachable s" and "authenticate s sess = Some u" and "\<not> issue_exists s iid"
  shows "post_api_issues_upvote s now sess iid = (Failure 500 ''Failed to toggle upvote'', s)"
proof -
  from reachable_inv [OF assms(1)] have "refs_ok s" by (simp add: store_inv_def)
  with assms(3) have "\<not> has_vote s (u_id u) iid"
    by (auto simp: refs_ok_iff has_vote_iff)
  then have "toggleUpvote s now (u_id u) iid = Inl ForeignKeyViolation"
    using assms(3) by (simp add: toggle_add insertUpvote_def)
  then show ?thesis
    by (simp add: post_api_issues_upvote_def guard_def assms(2))
qed

theorem upvote_missing_issue_witness:
  "post_api_issues_upvote issue_store 9 (Some 0) 77
     = (Failure 500 ''Failed to toggle upvote'', issue_store)"
proof -
  have "authenticate issue_store (Some 0)
      = Some \<lparr>u_id = 0, email = ''c@x.org'', password = ''secret'', name = ''N'',
              role = ''citizen'', u_createdAt = 1\<rparr>"
    and "\<not> issue_exists issue_store 77"
    by code_simp+
  from upvote_missing_issue [OF reachable_issue_store this] show ?thesis .
qed

theorem upvote_missing_issue_500:
  "http_status (fst (post_api_issues_upvote issue_store 9 (Some 0) 77)) = Some 500
   \<and> http_status (fst (post_api_issues_upvote issue_store 9 (Some 0) 77)) \<noteq> Some 404"
  by (intro conjI; code_simp)

section \<open>Assignment\<close>

lemma assignIssue_ok:
  assumes "issue_exists s iid" and "user_exists s by" and "user_exists s a"
  shows "\<exists>x s1. assignIssue s now \<lparr>ia_issueId = Some iid, ia_adminId = Some a,
                   ia_assignedBy = Some by, ia_assignmentNotes = body_notes\<rparr> = Inr (x, s1)
     \<and> adminId x = Some a \<and> as_issueId x = Some iid
     \<and> assignments s1 = assignments s @ [x] \<and> users s1 = users s
     \<and> issues s1 = issues (updateIssueStatus s iid ''assigned'')"
  using assms by (simp add: assignIssue_def fk_ok_def Let_def updateIssueStatus_def)

lemma assignIssue_bad:
  assumes "\<not> user_exists s a"
  shows "assignIssue s now \<lparr>ia_issueId = Some iid, ia_adminId = Some a,
                   ia_assignedBy = Some by, ia_assignmentNotes = body_notes\<rparr>
           = Inl ForeignKeyViolation"
  using assms by (simp add: assignIssue_def fk_ok_def)

lemma updateIssueStatus_twice:
  "issues s1 = issues (updateIssueStatus s iid st) \<Longrightarrow>
   issues (updateIssueStatus s1 iid st) = issues (updateIssueStatus s iid st)"
  by (simp add: updateIssueStatus_def)

lemma issue_exists_update:
  assumes "issues s1 = issues (updateIssueStatus s iid st)"
  shows "issue_exists s1 k = issue_exists s k"
proof -
  have "i_id \<circ> (\<lambda>i. if i_id i = iid then i\<lparr>status := st\<rparr> else i) = i_id"
    by (auto simp: fun_eq_iff)
  then have "map i_id (issues s1) = map i_id (issues s)"
    by (simp add: assms updateIssueStatus_def)
  then show ?thesis by (simp add: issue_exists_iff)
qed

text \<open>The loop over admin ids that all exist: one row each, in order.\<close>

lemma assign_loop_ok:
  assumes "issue_exists s iid" and "user_exists s by" and "\<forall>a \<in> set ids. user_exists s a"
  shows "\<exists>rows s'. assign_loop s now iid by body_notes ids acc = (Inr (acc @ rows), s')
     \<and> map adminId rows = map Some ids
     \<and> assignments s' = assignments s @ rows \<and> users s' = users s
     \<and> issues s' = (if ids = [] then issues s
                    else issues (updateIssueStatus s iid ''assigned''))"
  using assms
proof (induction ids arbitrary: s acc)
  case Nil
  then show ?case by simp
next
  case (Cons a ids)
  from Cons.prems have "user_exists s a" by simp
  from assignIssue_ok [OF Cons.prems(1,2) this, of now body_notes] obtain x s1 where
    step: "assignIssue s now \<lparr>ia_issueId = Some iid, ia_adminId = Some a,
                   ia_assignedBy = Some by, ia_assignmentNotes = body_notes\<rparr> = Inr (x, s1)" and
    x: "adminId x = Some a" and
    s1: "assignments s1 = assignments s @ [x]" "users s1 = users s"
        "issues s1 = issues (updateIssueStatus s iid ''assigned'')"
    by blast
  have ue: "user_exists s1 = user_exists s" using s1(2) by (rule user_exists_cong)
  have p1: "issue_exists s1 iid" using Cons.prems(1) s1(3) by (simp add: issue_exists_update)
  have p2: "user_exists s1 by" using Cons.prems(2) by (simp add: ue)
  have p3: "\<forall>a \<in> set ids. user_exists s1 a" using Cons.prems(3) by (simp add: ue)
  from Cons.IH [OF p1 p2 p3, of "acc @ [x]"] obtain rows s' where
    run: "assign_loop s1 now iid by body_notes ids (acc @ [x]) = (Inr ((acc @ [x]) @ rows), s')"
    and r: "map adminId rows = map Some ids" "assignments s' = assignments s1 @ rows"
       "users s' = users s1"
       "issues s' = (if ids = [] then issues s1
                     else issues (updateIssueStatus s1 iid ''assigned''))"
    by blast
  have "assign_loop s now iid by body_notes (a # ids) acc = (Inr (acc @ (x # rows)), s')"
    by (simp add: step run)
  moreover have "issues s' = issues (updateIssueStatus s iid ''assigned'')"
    using r(4) s1(3) updateIssueStatus_twice [OF s1(3)] by simp
  ultimately show ?case
    using x r(1,2,3) s1(1,2) by auto
qed

lemma assign_loop_append:
  "assign_loop s now iid by body_notes (xs @ ys) acc =
     (case assign_loop s now iid by body_notes xs acc of
        (Inl e, s1) \<Rightarrow> (Inl e, s1)
      | (Inr acc', s1) \<Rightarrow> assign_loop s1 now iid by body_notes ys acc')"
  by (induction xs arbitrary: s acc) (auto split: sum.splits prod.splits)

text \<open>The loop stopped by an admin id that no user has: the rows before it stay.\<close>

lemma assign_loop_fail:
  assumes "issue_exists s iid" and "user_exists s by" and "\<forall>a \<in> set pre. user_exists s a"
    and "\<not> user_exists s bad"
  shows "\<exists>rows s'. assign_loop s now iid by body_notes (pre @ bad # post) acc
                     = (Inl ForeignKeyViolation, s')
     \<and> map adminId rows = map Some pre
     \<and> assignments s' = assignments s @ rows
     \<and> issues s' = (if pre = [] then issues s
                    else issues (updateIssueStatus s iid ''assigned''))"
proof -
  from assign_loop_ok [OF assms(1-3), of now body_notes acc] obtain rows s1 where
    run: "assign_loop s now iid by body_notes pre acc = (Inr (acc @ rows), s1)" and
    r: "map adminId rows = map Some pre" "assignments s1 = assignments s @ rows"
       "users s1 = users s"
       "issues s1 = (if pre = [] then issues s
                     else issues (updateIssueStatus s iid ''assigned''))"
    by blast
  have "\<not> user_exists s1 bad" using assms(4) user_exists_cong [OF r(3)] by simp
  then have "assign_loop s1 now iid by body_notes (bad # post) (acc @ rows)
               = (Inl ForeignKeyViolation, s1)"
    by (simp add: assignIssue_bad)
  then have "assign_loop s now iid by body_notes (pre @ bad # post) acc
               = (Inl ForeignKeyViolation, s1)"
    by (simp add: assign_loop_append run)
  with r show ?thesis by blast
qed

text \<open>
  Claim C3. For a superadmin and an existing, not-assigned issue: an assignment to
  N existing users (N at least 1) answers 200, appends N assignment rows in the
  order of the ids and sets the status to \<^verbatim>\<open>"assigned"\<close>. The request is not one
  unit: when the id after a prefix of existing users belongs to no user, the
  answer is 400, the rows of the prefix stay, and with a non-empty prefix the
  status is \<^verbatim>\<open>"assigned"\<close>.
\<close>

theorem assign_fan_out:
  assumes "authenticate s sess = Some u" and "role u = ''superadmin''"
    and "issue_exists s iid"
    and "\<forall>i \<in> set (issues s). i_id i = iid \<longrightarrow> status i = ''not-assigned''"
    and "\<forall>a \<in> set pre. user_exists s a"
  shows "(pre \<noteq> [] \<longrightarrow>
           (\<exists>rows s'. post_api_issues_assign s now sess iid (Some pre) body_notes
                = (Success 200 rows, s')
              \<and> map adminId rows = map Some pre
              \<and> assignments s' = assignments s @ rows
              \<and> issues s' = issues (updateIssueStatus s iid ''assigned'')))
       \<and> (\<not> user_exists s bad \<longrightarrow>
           (\<exists>rows s'. post_api_issues_assign s now sess iid (Some (pre @ bad # post)) body_notes
                = (Failure 400 ''Failed to assign issue'', s')
              \<and> map adminId rows = map Some pre
              \<and> assignments s' = assignments s @ rows
              \<and> issues s' = (if pre = [] then issues s
                             else issues (updateIssueStatus s iid ''assigned''))))"
proof -
  note caller = authenticate_user [OF assms(1)]
  have g: "guard s sess (Some [''superadmin'']) h = h u"
    for h :: "user \<Rightarrow> assignment list response \<times> store"
    by (simp add: guard_def assms(1,2))
  show ?thesis
  proof (intro conjI impI)
    assume ne: "pre \<noteq> []"
    from assign_loop_ok [OF assms(3) caller assms(5), of now body_notes "[]"]
    obtain rows s' where
      "assign_loop s now iid (u_id u) body_notes pre [] = (Inr rows, s')"
      "map adminId rows = map Some pre" "assignments s' = assignments s @ rows"
      "issues s' = issues (updateIssueStatus s iid ''assigned'')"
      using ne by auto
    then show "\<exists>rows s'. post_api_issues_assign s now sess iid (Some pre) body_notes
                = (Success 200 rows, s')
              \<and> map adminId rows = map Some pre
              \<and> assignments s' = assignments s @ rows
              \<and> issues s' = issues (updateIssueStatus s iid ''assigned'')"
      using ne by (simp add: post_api_issues_assign_def g)
  next
    assume bad: "\<not> user_exists s bad"
    from assign_loop_fail [OF assms(3) caller assms(5) bad, of now body_notes post "[]"]
    obtain rows s' where
      "assign_loop s now iid (u_id u) body_notes (pre @ bad # post) []
         = (Inl ForeignKeyViolation, s')"
      "map adminId rows = map Some pre" "assignments s' = assignments s @ rows"
      "issues s' = (if pre = [] then issues s
                    else issues (updateIssueStatus s iid ''assigned''))"
      by blast
    then show "\<exists>rows s'. post_api_issues_assign s now sess iid (Some (pre @ bad # post)) body_notes
                = (Failure 400 ''Failed to assign issue'', s')
              \<and> map adminId rows = map Some pre
              \<and> assignments s' = assignments s @ rows
              \<and> issues s' = (if pre = [] then issues s
                             else issues (updateIssueStatus s iid ''assigned''))"
      by (simp add: post_api_issues_assign_def g)
  qed
qed

theorem assign_fan_out_witness:
  "(\<exists>rows s'. post_api_issues_assign issue_store 7 (Some 2) 3 (Some [1, 0]) None
        = (Success 200 rows, s')
      \<and> map adminId rows = [Some 1, Some 0]
      \<and> assignments s' = assignments issue_store @ rows
      \<and> issues s' = issues (updateIssueStatus issue_store 3 ''assigned''))
   \<and> (\<exists>rows s'. post_api_issues_assign issue_store 7 (Some 2) 3 (Some [1, 0, 99]) None
        = (Failure 400 ''Failed to assign issue'', s')
      \<and> map adminId rows = [Some 1, Some 0]
      \<and> assignments s' = assignments issue_store @ rows
      \<and> issues s' = issues (updateIssueStatus issue_store 3 ''assigned''))"
proof -
  have h: "authenticate issue_store (Some 2)
      = Some \<lparr>u_id = 2, email = ''s@x.org'', password = ''secret'', name = ''N'',
              role = ''superadmin'', u_createdAt = 3\<rparr>"
    "role \<lparr>u_id = 2, email = ''s@x.org'', password = ''secret'', name = ''N'',
              role = ''superadmin'', u_createdAt = 3\<rparr> = ''superadmin''"
    "issue_exists issue_store 3"
    "\<forall>i \<in> set (issues issue_store). i_id i = 3 \<longrightarrow> status i = ''not-assigned''"
    "\<forall>a \<in> set [1, 0]. user_exists issue_store a"
    by code_simp+
  have b: "\<not> user_exists issue_store 99" by code_simp
  from assign_fan_out [OF h, of 7 None 99 "[]"] b show ?thesis by simp
qed

text \<open>
  The superadmin assigns the reported, not-assigned issue to the admin and to an
  id that no user has: the answer is 400, and the admin's row and the status
  \<^verbatim>\<open>"assigned"\<close> remain.
\<close>

theorem assign_partial_failure:
  "map status (issues issue_store) = [''not-assigned'']
   \<and> fst (post_api_issues_assign issue_store 7 (Some 2) 3 (Some [1, 99]) None)
       = Failure 400 ''Failed to assign issue''
   \<and> map adminId
       (assignments (snd (post_api_issues_assign issue_store 7 (Some 2) 3 (Some [1, 99]) None)))
       = [Some 1]
   \<and> map status
       (issues (snd (post_api_issues_assign issue_store 7 (Some 2) 3 (Some [1, 99]) None)))
       = [''assigned'']"
  by (intro conjI; code_simp)

section \<open>Analytics\<close>






section \<open>Routes without the checks of the client\<close>

text \<open>
  The report route asks for a logged-in user and a complete form, and for nothing
  else: neither the role of the user nor the number of files is looked at.
\<close>

lemma post_api_issues_any_caller:
  assumes "authenticate s sess = Some u"
    and "parse_insertIssue body (u_id u) (map upload_url files) = Some ii"
    and "fk_ok (category_exists s) (f_categoryId body)"
  shows "\<exists>i s'. post_api_issues s now sess body files = (Success 201 i, s')
     \<and> issues s' = issues s @ [i] \<and> userId i = Some (u_id u)
     \<and> mediaUrls i = Some (map upload_url files)
     \<and> status i = ''not-assigned''"
proof -
  from assms(2) have ii: "ii_categoryId ii = f_categoryId body" "ii_userId ii = Some (u_id u)"
    "ii_mediaUrls ii = Some (map upload_url files)"
    by (auto simp: parse_insertIssue_def split: option.splits)
  have "fk_ok (user_exists s) (ii_userId ii)"
    using authenticate_user [OF assms(1)] by (simp add: ii fk_ok_def)
  then obtain i s' where c: "createIssue s now ii = Inr (i, s')"
    and i: "issues s' = issues s @ [i]" "userId i = ii_userId ii" "mediaUrls i = ii_mediaUrls ii"
      "status i = ''not-assigned''"
    using assms(3) by (simp add: createIssue_def ii Let_def)
  have "post_api_issues s now sess body files = (Success 201 i, s')"
    by (simp add: post_api_issues_def guard_def assms(1,2) c)
  with i ii show ?thesis by simp
qed

text \<open>
  The resolve route asks for an admin, notes and a file: it writes the resolution
  to every row of the id, whatever the status of the row, and answers 200.
\<close>

lemma post_api_issues_resolve_any_status:
  assumes "authenticate s sess = Some u" and "role u = ''admin''" and "n \<noteq> []"
  shows "post_api_issues_resolve s now sess iid (Some n) (Some f) =
     (Success 200 ''Issue resolved successfully'',
      s\<lparr>issues := map (\<lambda>i. if i_id i = iid
                 then i\<lparr>status := ''resolved'',
                        resolutionNotes := Some n,
                        resolutionImageUrl := Some (upload_url f),
                        resolvedBy := Some (u_id u),
                        resolvedAt := Some now\<rparr>
                 else i) (issues s)\<rparr>)"
proof -
  have "upload_url f \<noteq> []" by (simp add: upload_url_def)
  then have p: "parse_resolveIssue (Some n) (upload_url f)
     = Some \<lparr>r_resolutionNotes = n, r_resolutionImageUrl = upload_url f\<rparr>"
    using assms(3) by (cases n; cases "upload_url f") (simp_all add: parse_resolveIssue_def)
  show ?thesis
    using authenticate_user [OF assms(1)]
    by (simp add: post_api_issues_resolve_def guard_def assms(1,2) p resolveIssue_def)
qed

text \<open>
  Claim C2. The admin's resolve request for the reported issue, which is not
  assigned and for which the client shows no resolve button, is answered 200; a
  second resolve request for the now resolved issue is answered 200 as well and
  replaces the resolution notes.
\<close>

theorem resolve_ignores_status:
  "map status (issues issue_store) = [''not-assigned'']
   \<and> map (resolve_button_shown (authenticate issue_store (Some 1))) (issues issue_store)
       = [False]
   \<and> fst (post_api_issues_resolve issue_store 5 (Some 1) 3 (Some ''Filled'') (Some ''p.png''))
       = Success 200 ''Issue resolved successfully''
   \<and> fst (post_api_issues_resolve
            (snd (post_api_issues_resolve issue_store 5 (Some 1) 3 (Some ''Filled'')
                    (Some ''p.png'')))
            6 (Some 1) 3 (Some ''Again'') (Some ''q.png''))
       = Success 200 ''Issue resolved successfully''
   \<and> map resolutionNotes (issues (snd (post_api_issues_resolve
            (snd (post_api_issues_resolve issue_store 5 (Some 1) 3 (Some ''Filled'')
                    (Some ''p.png'')))
            6 (Some 1) 3 (Some ''Again'') (Some ''q.png'')))) = [Some ''Again'']"
  by (intro conjI; code_simp)

text \<open>
  Claim C6. A logged-in admin, to whom the client's report page denies access,
  posts a report to the route: the answer is 201 and the issue is stored with the
  admin as its owner.
\<close>

theorem admin_creates_issue:
  "map_option role (authenticate users_store (Some 1)) = Some ''admin''
   \<and> addIssuePage (authenticate users_store (Some 1))
       = AccessDenied ''Only citizens can submit issues.''
   \<and> http_status (fst (post_api_issues users_store 4 (Some 1) pothole [''a.png''])) = Some 201
   \<and> map userId (issues (snd (post_api_issues users_store 4 (Some 1) pothole [''a.png''])))
       = [Some 1]"
  by (intro conjI; code_simp)

text \<open>
  Claim C8. A report without any file, which the client's form refuses to send,
  is accepted by the route: the answer is 201 and the issue is stored with an
  empty media list.
\<close>

theorem issue_without_media:
  "onSubmit [] = Toast ''Media required'' ''Please upload at least one image or video.''
   \<and> http_status (fst (post_api_issues users_store 4 (Some 0) pothole [])) = Some 201
   \<and> map mediaUrls (issues (snd (post_api_issues users_store 4 (Some 0) pothole [])))
       = [Some []]"
  by (intro conjI; code_simp)

end
